theory Spec2Isabelle
  imports
    Main
    "HOL-Library.AList"
    "HOL-Library.Sublist"
    "HOL-Library.Char_ord"
    "HOL-Library.List_Lexorder"
begin

section \<open>Python values\<close>

text \<open>
  The values that contract code hands to the state layer. The source only ever looks at a
  value through \<^verbatim>\<open>is None\<close>, \<^verbatim>\<open>type(v)\<close>, \<^verbatim>\<open>isinstance\<close> and \<^verbatim>\<open>str(v)\<close>,
  so a native float, a ContractingDecimal, a slice and any other object are carried by
  their \<^verbatim>\<open>str()\<close> form (and, for other objects, their class name).
\<close>

datatype pyval =
    PNone
  | PBool bool
  | PInt int
  | PStr string
  | PFloat string
  | PDecimal string
  | PSlice string
  | PObject string string

function str_nat :: "nat \<Rightarrow> string" where
  "str_nat n =
     (if n < 10 then [''0123456789'' ! n]
      else str_nat (n div 10) @ [''0123456789'' ! (n mod 10)])"
  by pat_completeness auto
termination
  by (relation "measure id") auto

declare str_nat.simps [simp del]

definition str_int :: "int \<Rightarrow> string" where
  "str_int i = (if i < 0 then CHR ''-'' # str_nat (nat (- i)) else str_nat (nat i))"

text \<open>Python's \<^verbatim>\<open>str(v)\<close>.\<close>

fun py_str :: "pyval \<Rightarrow> string" where
  "py_str PNone = ''None''"
| "py_str (PBool b) = (if b then ''True'' else ''False'')"
| "py_str (PInt i) = str_int i"
| "py_str (PStr s) = s"
| "py_str (PFloat s) = s"
| "py_str (PDecimal s) = s"
| "py_str (PSlice s) = s"
| "py_str (PObject c s) = s"

section \<open>Python dictionaries\<close>

text \<open>
  A \<^verbatim>\<open>dict\<close> keeps insertion order, and assigning to a key that is present keeps the
  key's place: an association list updated with \<^const>\<open>AList.update\<close>. The first entry of a
  key is the live one, so every list stands for a dictionary.
\<close>

type_synonym 'v dict = "(string \<times> 'v) list"

definition dict_get :: "pyval dict \<Rightarrow> string \<Rightarrow> pyval" where
  \<comment> \<open>\<^verbatim>\<open>d.get(key)\<close>: None when the key is missing\<close>
  "dict_get d k = (case map_of d k of None \<Rightarrow> PNone | Some v \<Rightarrow> v)"

definition dict_items :: "'v dict \<Rightarrow> (string \<times> 'v) list" where
  \<comment> \<open>\<^verbatim>\<open>d.items()\<close>, in insertion order\<close>
  "dict_items d = AList.clearjunk d"

section \<open>The state of one execution context\<close>

datatype driver_call = CallGet string | CallSet string pyval | CallIter string nat

datatype meter_event = DeductRead string pyval | DeductWrite string pyval

record event =
  ev_contract :: string
  ev_event :: string
  ev_signer :: pyval
  ev_caller :: pyval
  indexed_args :: "pyval dict"
  non_indexed_args :: "pyval dict"

text \<open>
  One record holds the objects the source mutates: the RocksDB contents behind
  \<^verbatim>\<open>Driver\<close> (\<open>db\<close>, keys and decoded values: the codec is taken to round-trip), the calls
  made on the \<^verbatim>\<open>Driver\<close> (\<open>driver_calls\<close>, kept to count backing-store accesses), the
  three collections of \<^verbatim>\<open>CacheDriver\<close>, the driver's \<^verbatim>\<open>delimiter\<close> attribute, and the
  runtime \<^verbatim>\<open>rt\<close>: the events reported to metering, the context's signer and caller, and the
  event log written by \<^verbatim>\<open>set_event\<close>. \<open>stop_iter_response\<close> is the byte string the rocks
  client returns when an iterator is exhausted (\<^verbatim>\<open>constants.STOP_ITER_RESPONSE\<close> of an
  external package): its value is not known here, so it is carried as a parameter.
\<close>

record state =
  db :: "pyval dict"
  driver_calls :: "driver_call list"
  cache :: "pyval dict"
  reads :: "string set"
  pending_writes :: "pyval dict"
  delimiter :: string
  meter :: "meter_event list"
  signer :: pyval
  caller :: pyval
  event_log :: "event list"
  stop_iter_response :: string

text \<open>
  Modelled from the spec: \<^verbatim>\<open>rt.deduct_read\<close> and \<^verbatim>\<open>rt.deduct_write\<close>
  (contracting.execution.runtime is not among the sources). Each call reports one event
  (key, value) to metering. The cost model, and the resource-exhaustion condition it may
  raise, belong to the metering collaborator and are not modelled.
\<close>

definition deduct_read :: "string \<Rightarrow> pyval \<Rightarrow> state \<Rightarrow> state" where
  "deduct_read key v s = s\<lparr>meter := meter s @ [DeductRead key v]\<rparr>"

definition deduct_write :: "string \<Rightarrow> pyval \<Rightarrow> state \<Rightarrow> state" where
  "deduct_write key v s = s\<lparr>meter := meter s @ [DeductWrite key v]\<rparr>"

section \<open>Driver: the string-keyed accessor of the backing store\<close>

definition Driver_get :: "string \<Rightarrow> state \<Rightarrow> pyval \<times> state" where
  "Driver_get item s =
     (dict_get (db s) item, s\<lparr>driver_calls := driver_calls s @ [CallGet item]\<rparr>)"

definition Driver_delitem :: "string \<Rightarrow> state \<Rightarrow> state" where
  "Driver_delitem key s = s\<lparr>db := AList.delete key (db s)\<rparr>"

definition Driver_set :: "string \<Rightarrow> pyval \<Rightarrow> state \<Rightarrow> state" where
  "Driver_set key v s =
     (let s' = s\<lparr>driver_calls := driver_calls s @ [CallSet key v]\<rparr>
      in if v = PNone then Driver_delitem key s'
         else s'\<lparr>db := AList.update key v (db s')\<rparr>)"

text \<open>
  Modelled from the spec: the RawStore iterator (the rocks client is an external
  collaborator). \<^verbatim>\<open>seek(p)\<close> places the iterator on the first key not below \<open>p\<close> and
  \<^verbatim>\<open>next()\<close> yields the keys in ascending byte order, then the end sentinel.
\<close>

definition db_seek :: "string \<Rightarrow> state \<Rightarrow> string list" where
  "db_seek p s = dropWhile (\<lambda>k. k < p) (sort (remdups (map fst (db s))))"

text \<open>
  The loop of \<^verbatim>\<open>Driver.iter\<close> over the keys the iterator still has to yield, with the
  sentinel \<open>stop\<close>. When no key is left \<^verbatim>\<open>next()\<close> returns the sentinel: nothing is
  appended and the loop ends, whether the sentinel starts with the prefix or not. A
  persisted key that equals the sentinel is taken for it: it is not appended and the loop
  ends there, leaving out the keys after it.
\<close>

fun iter_loop :: "string \<Rightarrow> string \<Rightarrow> nat \<Rightarrow> string list \<Rightarrow> string list \<Rightarrow> string list" where
  "iter_loop stop p len [] l = l"
| "iter_loop stop p len (k # rest) l =
     (if \<not> prefix p k then l
      else if k = stop then l
      else let l' = l @ [k]
           in if 0 < len \<and> len \<le> length l' then l' else iter_loop stop p len rest l')"

definition Driver_iter :: "string \<Rightarrow> nat \<Rightarrow> state \<Rightarrow> string list \<times> state" where
  "Driver_iter p len s =
     (iter_loop (stop_iter_response s) p len (db_seek p s) [],
      s\<lparr>driver_calls := driver_calls s @ [CallIter p len]\<rparr>)"

section \<open>CacheDriver: the per-execution overlay\<close>

definition CacheDriver_get :: "string \<Rightarrow> state \<Rightarrow> pyval \<times> state" where
  "CacheDriver_get key s =
     (let v = dict_get (cache s) key
      in if v \<noteq> PNone then (v, deduct_read key v s)
         else
           let (dv, s1) = Driver_get key s;
               s2 = deduct_read key dv s1;
               s3 = s2\<lparr>cache := AList.update key dv (cache s2)\<rparr>;
               s4 = s3\<lparr>reads := insert key (reads s3)\<rparr>
           in (dv, s4))"

definition CacheDriver_set :: "string \<Rightarrow> pyval \<Rightarrow> state \<Rightarrow> state" where
  "CacheDriver_set key v s =
     (let s1 = deduct_write key v s;
          s2 = s1\<lparr>cache := AList.update key v (cache s1)\<rparr>
      in s2\<lparr>pending_writes := AList.update key v (pending_writes s2)\<rparr>)"

definition CacheDriver_commit :: "state \<Rightarrow> state" where
  "CacheDriver_commit s =
     fold (\<lambda>(k, v). Driver_set k v) (dict_items (pending_writes s)) s"

definition clear_pending_state :: "state \<Rightarrow> state" where
  "clear_pending_state s = s\<lparr>cache := [], reads := {}, pending_writes := []\<rparr>"

section \<open>ContractDriver: key building and prefix queries\<close>

text \<open>
  The second loop of \<^verbatim>\<open>items\<close>: fetch every key of \<^verbatim>\<open>db_keys - keys\<close> from the store.
  Python leaves the iteration order of a set open; the model takes the keys in the order
  \<^verbatim>\<open>iter\<close> returned them.
\<close>

fun fetch_keys :: "string list \<Rightarrow> pyval dict \<Rightarrow> state \<Rightarrow> pyval dict \<times> state" where
  "fetch_keys [] items s = (items, s)"
| "fetch_keys (k # ks) items s =
     (let (v, s') = Driver_get k s in fetch_keys ks (AList.update k v items) s')"

definition cache_items :: "string \<Rightarrow> pyval dict \<Rightarrow> pyval dict" where
  \<comment> \<open>the first loop of \<^verbatim>\<open>items\<close>: the cache entries under the prefix\<close>
  "cache_items p c =
     fold (\<lambda>(k, v) items. if prefix p k then AList.update k v items else items)
       (dict_items c) []"

definition ContractDriver_items :: "string \<Rightarrow> state \<Rightarrow> pyval dict \<times> state" where
  "ContractDriver_items p s =
     (let items = cache_items p (cache s);
          keys = set (map fst items);
          (db_keys, s1) = Driver_iter p 0 s
      in fetch_keys (filter (\<lambda>k. k \<notin> keys) (remdups db_keys)) items s1)"

definition ContractDriver_values :: "string \<Rightarrow> state \<Rightarrow> pyval list \<times> state" where
  "ContractDriver_values p s =
     (let (items, s') = ContractDriver_items p s in (map snd (dict_items items), s'))"

text \<open>
  The \<^verbatim>\<open>args\<close> parameter of \<^verbatim>\<open>make_key\<close>: absent, a list, or a tuple. The tuple stands
  for every sequence that is not a list: the \<^verbatim>\<open>isinstance(args, list)\<close> guard leaves it
  out of the key.
\<close>

datatype pyargs = NoArgs | ListArgs "pyval list" | TupleArgs "pyval list"

definition make_key :: "state \<Rightarrow> string \<Rightarrow> string \<Rightarrow> pyargs \<Rightarrow> string" where
  "make_key s key field args =
     (let k = key @ delimiter s @ field
      in case args of
           ListArgs as \<Rightarrow> fold (\<lambda>a k. k @ '':'' @ py_str a) as k
         | _ \<Rightarrow> k)"

definition hget :: "string \<Rightarrow> string \<Rightarrow> state \<Rightarrow> pyval \<times> state" where
  "hget key field s = CacheDriver_get (make_key s key field NoArgs) s"


section \<open>Runs of one execution context\<close>

text \<open>
  A context is a sequence of \<^verbatim>\<open>get\<close>, \<^verbatim>\<open>set\<close> and \<^verbatim>\<open>commit\<close> calls on one
  \<^verbatim>\<open>CacheDriver\<close> that is never reset; \<open>fetches k\<close> counts the \<^verbatim>\<open>Driver.get(k)\<close> calls
  made so far.
\<close>

datatype op = OpGet string | OpSet string pyval | OpCommit

fun step :: "op \<Rightarrow> state \<Rightarrow> state" where
  "step (OpGet k) s = snd (CacheDriver_get k s)"
| "step (OpSet k v) s = CacheDriver_set k v s"
| "step OpCommit s = CacheDriver_commit s"

definition run :: "op list \<Rightarrow> state \<Rightarrow> state" where
  "run ops s = fold step ops s"

definition fetches :: "string \<Rightarrow> state \<Rightarrow> nat" where
  "fetches k s = count_list (driver_calls s) (CallGet k)"

text \<open>
  \<^verbatim>\<open>CacheDriver.__init__\<close> over a store with the given contents: empty cache, read set and
  pending writes. The \<^verbatim>\<open>delimiter\<close> attribute, which \<^verbatim>\<open>make_key\<close> reads and
  \<^verbatim>\<open>__init__\<close> does not set, is passed in, and so is the iterator's end sentinel.
\<close>

definition CacheDriver_init :: "pyval dict \<Rightarrow> string \<Rightarrow> string \<Rightarrow> state" where
  "CacheDriver_init d delim stop =
     \<lparr>db = d, driver_calls = [], cache = [], reads = {}, pending_writes = [],
      delimiter = delim, meter = [], signer = PNone, caller = PNone, event_log = [],
      stop_iter_response = stop\<rparr>"

text \<open>
  The sentinel of the examples: one byte that no key of the examples equals. The
  theorems themselves are stated for every sentinel.
\<close>

definition sentinel0 :: string where
  "sentinel0 = [CHR 0xFF]"

text \<open>What \<^verbatim>\<open>Driver.set\<close> does to the store contents.\<close>

definition raw_set :: "string \<times> pyval \<Rightarrow> pyval dict \<Rightarrow> pyval dict" where
  "raw_set kv d =
     (if snd kv = PNone then AList.delete (fst kv) d else AList.update (fst kv) (snd kv) d)"

section \<open>Shared key-space constants\<close>

text \<open>
  Modelled from the spec: the field delimiter and the argument separator
  (contracting.constants is not among the sources). The literals are the ones the unit
  tests pin down: \<^verbatim>\<open>make_key('blah', 'scoob')\<close> followed by the hash delimiter and a
  coordinate is \<^verbatim>\<open>'blah.scoob:stu'\<close>.
\<close>

definition INDEX_SEPARATOR :: string where
  "INDEX_SEPARATOR = ''.''"

definition DELIMITER :: string where
  "DELIMITER = '':''"



section \<open>Types and errors of the ORM\<close>

text \<open>
  The classes the ORM tests values against. \<open>TClass\<close> names any other class (list, dict,
  a contract's own class), with no subclass but itself.
\<close>

datatype pytype = TNoneType | TBool | TInt | TStr | TFloat | TDecimal | TSlice | TClass string

fun type_of :: "pyval \<Rightarrow> pytype" where
  "type_of PNone = TNoneType"
| "type_of (PBool b) = TBool"
| "type_of (PInt i) = TInt"
| "type_of (PStr s) = TStr"
| "type_of (PFloat s) = TFloat"
| "type_of (PDecimal s) = TDecimal"
| "type_of (PSlice s) = TSlice"
| "type_of (PObject c s) = TClass c"

definition issubclass :: "pytype \<Rightarrow> pytype list \<Rightarrow> bool" where
  \<comment> \<open>\<^verbatim>\<open>issubclass(t, (u1, ..., un))\<close>; \<^verbatim>\<open>bool\<close> is a subclass of \<^verbatim>\<open>int\<close>\<close>
  "issubclass t us = list_ex (\<lambda>u. t = u \<or> (t = TBool \<and> u = TInt)) us"

definition isinstance :: "pyval \<Rightarrow> pytype list \<Rightarrow> bool" where
  "isinstance v us = issubclass (type_of v) us"

datatype assertion =
    WrongVariableType
  | TooManyDimensions nat
  | SlicesProhibited
  | IllegalDelimiter
  | IllegalSeparator
  | KeyTooLong nat
  | NoArguments
  | TooManyIndexed
  | BadArgumentType
  | ArgumentCount
  | ArgumentMissing string
  | ArgumentWrongType string
  | IndexedWrongType string
  | NonIndexedWrongType string

datatype error = AssertionError assertion | ReferenceError | KeyError string | PyException string

type_synonym 'a result = "(error + 'a) \<times> state"

text \<open>
  Modelled from the spec: \<^verbatim>\<open>MAX_KEY_SIZE\<close> and \<^verbatim>\<open>MAX_HASH_DIMENSIONS\<close>
  (contracting.constants is not among the sources, and nothing in them fixes the two
  numbers): the functions below take them as a parameter.
\<close>

record limits =
  MAX_KEY_SIZE :: nat
  MAX_HASH_DIMENSIONS :: nat

text \<open>
  Modelled from the spec: the driver the bindings hold. \<^verbatim>\<open>orm.py\<close> imports it from
  contracting.storage.driver, which is not among the sources, and calls it with
  \<^verbatim>\<open>set(key, value, True)\<close>, \<^verbatim>\<open>delete\<close> and \<^verbatim>\<open>set_event\<close>, which \<^verbatim>\<open>new_driver.py\<close> does
  not have. By the spec the bindings call the namespaced driver over the cached one;
  the model runs them over the \<^verbatim>\<open>ContractDriver\<close> above, the one implementation of
  those two that the sources hold: \<^verbatim>\<open>get\<close>, \<^verbatim>\<open>set\<close> (without the third argument),
  \<^verbatim>\<open>items\<close>, \<^verbatim>\<open>values\<close> and \<^verbatim>\<open>make_key\<close> are its methods. \<^verbatim>\<open>delete\<close> writes None,
  which the spec defines as deletion; \<^verbatim>\<open>set_event\<close> appends the record to the event log.
\<close>

definition driver_delete :: "string \<Rightarrow> state \<Rightarrow> state" where
  "driver_delete key s = CacheDriver_set key PNone s"

definition set_event :: "event \<Rightarrow> state \<Rightarrow> state" where
  "set_event e s = s\<lparr>event_log := event_log s @ [e]\<rparr>"

text \<open>
  Modelled from the spec: \<^verbatim>\<open>ContractingDecimal(str(value))\<close>
  (contracting.stdlib.bridge.decimal is not among the sources): the fixed-precision
  decimal built from the string form of the value.
\<close>

definition ContractingDecimal :: "string \<Rightarrow> pyval" where
  "ContractingDecimal str = PDecimal str"

section \<open>Variable\<close>





section \<open>Hash\<close>

record hash =
  h_key :: string
  h_delimiter :: string
  h_default_value :: pyval

definition Hash_init :: "state \<Rightarrow> string \<Rightarrow> string \<Rightarrow> pyval \<Rightarrow> hash" where
  "Hash_init s contract name default_value =
     \<lparr>h_key = make_key s contract name NoArgs, h_delimiter = DELIMITER,
      h_default_value = default_value\<rparr>"

definition Hash_set :: "hash \<Rightarrow> string \<Rightarrow> pyval \<Rightarrow> state \<Rightarrow> unit result" where
  \<comment> \<open>\<^verbatim>\<open>Hash._set\<close>\<close>
  "Hash_set h key v s = (Inr (), CacheDriver_set (h_key h @ h_delimiter h @ key) v s)"

definition Hash_get :: "hash \<Rightarrow> string \<Rightarrow> state \<Rightarrow> pyval \<times> state" where
  \<comment> \<open>\<^verbatim>\<open>Hash._get\<close>\<close>
  "Hash_get h item s =
     (let (value, s') = CacheDriver_get (h_key h @ h_delimiter h @ item) s;
          value = (if value = PNone then h_default_value h else value)
      in if type_of value = TFloat \<or> type_of value = TDecimal
         then (ContractingDecimal (py_str value), s')
         else (value, s'))"

text \<open>A coordinate: a tuple of elements, or any other single object.\<close>

datatype pykey = KTuple "pyval list" | KScalar pyval

definition drop_tail :: "nat \<Rightarrow> string \<Rightarrow> string" where
  \<comment> \<open>\<^verbatim>\<open>s[: -n]\<close>, which is empty for \<open>n = 0\<close>\<close>
  "drop_tail n str = (if n = 0 then [] else take (length str - n) str)"

text \<open>The loop of \<^verbatim>\<open>_validate_key\<close> over the elements of a tuple.\<close>

fun validate_elems :: "string \<Rightarrow> pyval list \<Rightarrow> string \<Rightarrow> error + string" where
  "validate_elems d [] new_key_str = Inr new_key_str"
| "validate_elems d (k # ks) new_key_str =
     (if type_of k = TSlice then Inl (AssertionError SlicesProhibited)
      else
        let k' = py_str k
        in if sublist DELIMITER k' then Inl (AssertionError IllegalDelimiter)
           else if sublist INDEX_SEPARATOR k' then Inl (AssertionError IllegalSeparator)
           else validate_elems d ks (new_key_str @ k' @ d))"

definition check_key_size :: "limits \<Rightarrow> string \<Rightarrow> error + string" where
  "check_key_size L key =
     (if length key \<le> MAX_KEY_SIZE L then Inr key
      else Inl (AssertionError (KeyTooLong (length key))))"

definition Hash_validate_key :: "limits \<Rightarrow> hash \<Rightarrow> pykey \<Rightarrow> error + string" where
  "Hash_validate_key L h key =
     (case key of
        KTuple ks \<Rightarrow>
          if \<not> length ks \<le> MAX_HASH_DIMENSIONS L
          then Inl (AssertionError (TooManyDimensions (length ks)))
          else
            (case validate_elems (h_delimiter h) ks [] of
               Inl e \<Rightarrow> Inl e
             | Inr new_key_str \<Rightarrow>
                 check_key_size L (drop_tail (length (h_delimiter h)) new_key_str))
      | KScalar k \<Rightarrow>
          let k' = py_str k
          in if sublist DELIMITER k' then Inl (AssertionError IllegalDelimiter)
             else if sublist INDEX_SEPARATOR k' then Inl (AssertionError IllegalSeparator)
             else check_key_size L k')"

definition Hash_prefix_for_args :: "limits \<Rightarrow> hash \<Rightarrow> pyval list \<Rightarrow> error + string" where
  "Hash_prefix_for_args L h args =
     (case Hash_validate_key L h (KTuple args) of
        Inl e \<Rightarrow> Inl e
      | Inr multi \<Rightarrow>
          let p = h_key h @ h_delimiter h
          in Inr (if multi \<noteq> [] then p @ multi @ h_delimiter h else p))"

definition Hash_all :: "limits \<Rightarrow> hash \<Rightarrow> pyval list \<Rightarrow> state \<Rightarrow> pyval list result" where
  "Hash_all L h args s =
     (case Hash_prefix_for_args L h args of
        Inl e \<Rightarrow> (Inl e, s)
      | Inr p \<Rightarrow> (let (vs, s') = ContractDriver_values p s in (Inr vs, s')))"

definition Hash_items :: "limits \<Rightarrow> hash \<Rightarrow> pyval list \<Rightarrow> state \<Rightarrow> pyval dict result" where
  \<comment> \<open>\<^verbatim>\<open>Hash._items\<close>\<close>
  "Hash_items L h args s =
     (case Hash_prefix_for_args L h args of
        Inl e \<Rightarrow> (Inl e, s)
      | Inr p \<Rightarrow> (let (kvs, s') = ContractDriver_items p s in (Inr kvs, s')))"

definition Hash_clear :: "limits \<Rightarrow> hash \<Rightarrow> pyval list \<Rightarrow> state \<Rightarrow> unit result" where
  "Hash_clear L h args s =
     (case Hash_items L h args s of
        (Inl e, s') \<Rightarrow> (Inl e, s')
      | (Inr kvs, s') \<Rightarrow> (Inr (), fold driver_delete (map fst (dict_items kvs)) s'))"

definition Hash_setitem :: "limits \<Rightarrow> hash \<Rightarrow> pykey \<Rightarrow> pyval \<Rightarrow> state \<Rightarrow> unit result" where
  "Hash_setitem L h key v s =
     (case Hash_validate_key L h key of
        Inl e \<Rightarrow> (Inl e, s)
      | Inr key' \<Rightarrow> Hash_set h key' v s)"

definition Hash_getitem :: "limits \<Rightarrow> hash \<Rightarrow> pykey \<Rightarrow> state \<Rightarrow> pyval result" where
  "Hash_getitem L h key s =
     (case Hash_validate_key L h key of
        Inl e \<Rightarrow> (Inl e, s)
      | Inr key' \<Rightarrow> (let (v, s') = Hash_get h key' s in (Inr v, s')))"

section \<open>ForeignVariable and ForeignHash\<close>










section \<open>LogEvent\<close>

text \<open>
  The schema of an event: per argument name the declared \<^verbatim>\<open>'type'\<close> (one class or a
  tuple of classes) and the optional \<^verbatim>\<open>'idx'\<close> flag.
\<close>

datatype type_decl = OneType pytype | TypeTuple "pytype list"

record arg_spec =
  arg_type :: type_decl
  arg_idx :: "bool option"

definition is_indexed :: "arg_spec \<Rightarrow> bool" where
  \<comment> \<open>\<^verbatim>\<open>arg.get('idx', False)\<close>\<close>
  "is_indexed a = (case arg_idx a of None \<Rightarrow> False | Some b \<Rightarrow> b)"

definition as_tuple :: "type_decl \<Rightarrow> pytype list" where
  "as_tuple d = (case d of OneType t \<Rightarrow> [t] | TypeTuple ts \<Rightarrow> ts)"

definition allowed_types :: "pytype list" where
  "allowed_types = [TStr, TInt, TFloat, TDecimal, TBool]"

record log_event =
  le_key :: string
  le_args :: "arg_spec dict"
  le_contract :: string
  le_name :: string

text \<open>
  The loop of \<^verbatim>\<open>LogEvent.__init__\<close>: each declared type is made a tuple and every class
  in it must be one of the allowed ones. (The length check that follows in the source
  is on a value that is a tuple by then, and never runs.)
\<close>

fun check_arg_types :: "(string \<times> arg_spec) list \<Rightarrow> error + arg_spec dict" where
  "check_arg_types [] = Inr []"
| "check_arg_types ((name, a) # rest) =
     (let ts = as_tuple (arg_type a)
      in if \<not> list_all (\<lambda>t. issubclass t allowed_types) ts
         then Inl (AssertionError BadArgumentType)
         else (case check_arg_types rest of
                 Inl e \<Rightarrow> Inl e
               | Inr rest' \<Rightarrow> Inr ((name, a\<lparr>arg_type := TypeTuple ts\<rparr>) # rest')))"

definition LogEvent_init :: "state \<Rightarrow> string \<Rightarrow> string \<Rightarrow> arg_spec dict \<Rightarrow> error + log_event" where
  "LogEvent_init s contract name args =
     (if \<not> 0 < length (dict_items args) then Inl (AssertionError NoArguments)
      else if \<not> length (filter (\<lambda>(n, a). is_indexed a) (dict_items args)) \<le> 3
      then Inl (AssertionError TooManyIndexed)
      else (case check_arg_types (dict_items args) of
              Inl e \<Rightarrow> Inl e
            | Inr args' \<Rightarrow>
                Inr \<lparr>le_key = make_key s contract name NoArgs, le_args = args',
                     le_contract = contract, le_name = name\<rparr>))"

text \<open>The first loop of \<^verbatim>\<open>write_event\<close>, over the schema's arguments in order.\<close>

fun check_data :: "(string \<times> arg_spec) list \<Rightarrow> pyval dict \<Rightarrow> error + unit" where
  "check_data [] event_data = Inr ()"
| "check_data ((arg, a) # rest) event_data =
     (case map_of event_data arg of
        None \<Rightarrow> Inl (AssertionError (ArgumentMissing arg))
      | Some v \<Rightarrow>
          if \<not> isinstance v (as_tuple (arg_type a))
          then Inl (AssertionError (ArgumentWrongType arg))
          else check_data rest event_data)"

text \<open>
  The two dictionary comprehensions of \<^verbatim>\<open>write_event\<close>: the arguments whose flag is
  \<open>idx\<close>, with their values from the event data.
\<close>

fun select_args :: "bool \<Rightarrow> (string \<times> arg_spec) list \<Rightarrow> pyval dict \<Rightarrow> error + pyval dict" where
  "select_args idx [] event_data = Inr []"
| "select_args idx ((arg, a) # rest) event_data =
     (if is_indexed a = idx
      then (case map_of event_data arg of
              None \<Rightarrow> Inl (KeyError arg)
            | Some v \<Rightarrow>
                (case select_args idx rest event_data of
                   Inl e \<Rightarrow> Inl e
                 | Inr rest' \<Rightarrow> Inr ((arg, v) # rest')))
      else select_args idx rest event_data)"

text \<open>
  The two closing loops of \<^verbatim>\<open>write_event\<close>: each value is checked once more and the
  encoded pair is reported to metering as a write (the codec is an external
  collaborator; the pair is logged as it is).
\<close>

fun meter_args ::
  "(string \<Rightarrow> assertion) \<Rightarrow> arg_spec dict \<Rightarrow> (string \<times> pyval) list \<Rightarrow> state \<Rightarrow> unit result" where
  "meter_args wrong args [] s = (Inr (), s)"
| "meter_args wrong args ((arg, v) # rest) s =
     (case map_of args arg of
        None \<Rightarrow> (Inl (KeyError arg), s)
      | Some a \<Rightarrow>
          if \<not> isinstance v (as_tuple (arg_type a)) then (Inl (AssertionError (wrong arg)), s)
          else meter_args wrong args rest (deduct_write arg v s))"

definition write_event :: "log_event \<Rightarrow> pyval dict \<Rightarrow> state \<Rightarrow> unit result" where
  "write_event le event_data s =
     (if length (dict_items event_data) \<noteq> length (dict_items (le_args le))
      then (Inl (AssertionError ArgumentCount), s)
      else
        (case check_data (dict_items (le_args le)) event_data of
           Inl e \<Rightarrow> (Inl e, s)
         | Inr u \<Rightarrow>
        (case select_args True (dict_items (le_args le)) event_data of
           Inl e \<Rightarrow> (Inl e, s)
         | Inr ia \<Rightarrow>
        (case select_args False (dict_items (le_args le)) event_data of
           Inl e \<Rightarrow> (Inl e, s)
         | Inr na \<Rightarrow>
        (let ev = \<lparr>ev_contract = le_contract le, ev_event = le_name le,
                   ev_signer = signer s, ev_caller = caller s,
                   indexed_args = ia, non_indexed_args = na\<rparr>
         in case meter_args IndexedWrongType (le_args le) ia s of
              (Inl e, s1) \<Rightarrow> (Inl e, s1)
            | (Inr u1, s1) \<Rightarrow>
                (case meter_args NonIndexedWrongType (le_args le) na s1 of
                   (Inl e, s2) \<Rightarrow> (Inl e, s2)
                 | (Inr u2, s2) \<Rightarrow> (Inr (), set_event ev s2)))))))"

section \<open>Coordinates, as the validation sees them\<close>

text \<open>
  The dimensions of a coordinate, the string they compose (Python's \<^verbatim>\<open>':'.join\<close>), and
  the condition under which a coordinate is refused. \<open>coordinate_invalid\<close> measures
  the composed string against \<^verbatim>\<open>MAX_KEY_SIZE\<close> itself; \<open>spec_coordinate_invalid\<close>
  follows the wording of the specification, which measures it against the budget that
  remains under \<^verbatim>\<open>MAX_KEY_SIZE\<close> after the bound prefix.
\<close>

fun join :: "string \<Rightarrow> string list \<Rightarrow> string" where
  "join d [] = []"
| "join d [x] = x"
| "join d (x # y # ys) = x @ d @ join d (y # ys)"

definition dims :: "pykey \<Rightarrow> pyval list" where
  "dims key = (case key of KTuple ks \<Rightarrow> ks | KScalar k \<Rightarrow> [k])"

definition coordinate_string :: "pykey \<Rightarrow> string" where
  "coordinate_string key = join DELIMITER (map py_str (dims key))"

definition has_delimiter :: "pyval \<Rightarrow> bool" where
  "has_delimiter k = (sublist DELIMITER (py_str k) \<or> sublist INDEX_SEPARATOR (py_str k))"

definition coordinate_invalid :: "limits \<Rightarrow> pykey \<Rightarrow> bool" where
  "coordinate_invalid L key =
     (MAX_HASH_DIMENSIONS L < length (dims key) \<or>
      list_ex has_delimiter (dims key) \<or>
      MAX_KEY_SIZE L < length (coordinate_string key))"

definition spec_coordinate_invalid :: "limits \<Rightarrow> hash \<Rightarrow> pykey \<Rightarrow> bool" where
  "spec_coordinate_invalid L h key =
     (MAX_HASH_DIMENSIONS L < length (dims key) \<or>
      list_ex has_delimiter (dims key) \<or>
      MAX_KEY_SIZE L - length (h_key h @ h_delimiter h) < length (coordinate_string key))"

definition slice_free :: "pykey \<Rightarrow> bool" where
  "slice_free key = (case key of KTuple ks \<Rightarrow> list_all (\<lambda>k. type_of k \<noteq> TSlice) ks | KScalar k \<Rightarrow> True)"

definition limits0 :: limits where
  "limits0 = \<lparr>MAX_KEY_SIZE = 1024, MAX_HASH_DIMENSIONS = 16\<rparr>"

definition state0 :: state where
  "state0 = CacheDriver_init [] INDEX_SEPARATOR sentinel0"

section \<open>Events, as emitted\<close>

text \<open>
  \<open>arg_ok\<close>: the event data holds the schema argument, with a value that is an instance
  of one of its declared classes. \<open>built_event\<close>: the record \<^verbatim>\<open>write_event\<close> builds.
  \<open>amount_event\<close>: the channel \<^verbatim>\<open>LogEvent('currency', 'Transfer', {'amount': {'type': int}})\<close>.
\<close>

definition amount_event :: log_event where
  "amount_event =
     \<lparr>le_key = ''currency.Transfer'',
      le_args = [(''amount'', \<lparr>arg_type = TypeTuple [TInt], arg_idx = None\<rparr>)],
      le_contract = ''currency'', le_name = ''Transfer''\<rparr>"

definition arg_ok :: "pyval dict \<Rightarrow> string \<times> arg_spec \<Rightarrow> bool" where
  "arg_ok event_data na =
     (case map_of event_data (fst na) of
        None \<Rightarrow> False
      | Some v \<Rightarrow> isinstance v (as_tuple (arg_type (snd na))))"

definition built_event :: "log_event \<Rightarrow> pyval dict \<Rightarrow> state \<Rightarrow> event" where
  "built_event le d s =
     \<lparr>ev_contract = le_contract le, ev_event = le_name le,
      ev_signer = signer s, ev_caller = caller s,
      indexed_args = map (\<lambda>(n, a). (n, dict_get d n))
        (filter (\<lambda>(n, a). is_indexed a) (dict_items (le_args le))),
      non_indexed_args = map (\<lambda>(n, a). (n, dict_get d n))
        (filter (\<lambda>(n, a). \<not> is_indexed a) (dict_items (le_args le)))\<rparr>"

section \<open>What a read sees\<close>





section \<open>Properties of the cache overlay\<close>

lemma dict_get_update:
  "dict_get (AList.update k v d) k' = (if k' = k then v else dict_get d k')"
  by (simp add: dict_get_def update_conv')

lemma get_hit:
  "dict_get (cache s) k \<noteq> PNone \<Longrightarrow>
   CacheDriver_get k s = (dict_get (cache s) k, deduct_read k (dict_get (cache s) k) s)"
  by (simp add: CacheDriver_get_def Let_def)

lemma get_miss:
  "dict_get (cache s) k = PNone \<Longrightarrow>
   CacheDriver_get k s =
     (dict_get (db s) k,
      s\<lparr>driver_calls := driver_calls s @ [CallGet k],
        meter := meter s @ [DeductRead k (dict_get (db s) k)],
        cache := AList.update k (dict_get (db s) k) (cache s),
        reads := insert k (reads s)\<rparr>)"
  by (simp add: CacheDriver_get_def Driver_get_def deduct_read_def Let_def)

lemma cache_set [simp]: "cache (CacheDriver_set k v s) = AList.update k v (cache s)"
  by (simp add: CacheDriver_set_def deduct_write_def Let_def)

lemma driver_calls_set [simp]: "driver_calls (CacheDriver_set k v s) = driver_calls s"
  by (simp add: CacheDriver_set_def deduct_write_def Let_def)

lemma db_set [simp]: "db (CacheDriver_set k v s) = db s"
  by (simp add: CacheDriver_set_def deduct_write_def Let_def)

text \<open>
  C1. Read-your-own-writes: after \<^verbatim>\<open>set(k, v)\<close> with a storable value \<open>v\<close> (any value
  but None, which stands for absence), \<^verbatim>\<open>get(k)\<close> in the same context returns \<open>v\<close>,
  makes no call on the \<^verbatim>\<open>Driver\<close> and leaves the store as it was.
\<close>

theorem read_your_own_writes:
  assumes "v \<noteq> PNone"
  shows "fst (CacheDriver_get k (CacheDriver_set k v s)) = v \<and>
         driver_calls (snd (CacheDriver_get k (CacheDriver_set k v s))) =
           driver_calls (CacheDriver_set k v s) \<and>
         db (snd (CacheDriver_get k (CacheDriver_set k v s))) = db s"
  using assms by (simp add: get_hit dict_get_update deduct_read_def)

theorem read_your_own_writes_witness:
  "PInt 5 \<noteq> PNone \<and>
   fst (CacheDriver_get ''k'' (CacheDriver_set ''k'' (PInt 5) (CacheDriver_init [] ''.'' sentinel0))) = PInt 5 \<and>
   driver_calls (snd (CacheDriver_get ''k''
      (CacheDriver_set ''k'' (PInt 5) (CacheDriver_init [] ''.'' sentinel0)))) = []"
  using read_your_own_writes [of "PInt 5" "''k''" "CacheDriver_init [] ''.'' sentinel0"]
  by (simp add: CacheDriver_init_def)

subsection \<open>Commit\<close>

lemma Driver_set_db: "db (Driver_set k v s) = raw_set (k, v) (db s)"
  by (simp add: Driver_set_def Driver_delitem_def raw_set_def Let_def)

lemma fold_Driver_set:
  "fold (\<lambda>(k, v). Driver_set k v) xs s =
     s\<lparr>db := fold raw_set xs (db s),
       driver_calls := driver_calls s @ map (\<lambda>(k, v). CallSet k v) xs\<rparr>"
proof (induction xs arbitrary: s)
  case Nil
  show ?case by simp
next
  case (Cons x xs)
  obtain k v where x: "x = (k, v)" by (cases x)
  have "fold (\<lambda>(k, v). Driver_set k v) (x # xs) s =
        fold (\<lambda>(k, v). Driver_set k v) xs (Driver_set k v s)"
    by (simp add: x)
  also have "\<dots> = (Driver_set k v s)\<lparr>db := fold raw_set xs (db (Driver_set k v s)),
       driver_calls := driver_calls (Driver_set k v s) @ map (\<lambda>(k, v). CallSet k v) xs\<rparr>"
    by (rule Cons.IH)
  also have "\<dots> = s\<lparr>db := fold raw_set (x # xs) (db s),
       driver_calls := driver_calls s @ map (\<lambda>(k, v). CallSet k v) (x # xs)\<rparr>"
    by (simp add: x Driver_set_def Driver_delitem_def raw_set_def Let_def)
  finally show ?case .
qed

lemma commit_unfold:
  "CacheDriver_commit s =
     s\<lparr>db := fold raw_set (dict_items (pending_writes s)) (db s),
       driver_calls :=
         driver_calls s @ map (\<lambda>(k, v). CallSet k v) (dict_items (pending_writes s))\<rparr>"
  by (simp add: CacheDriver_commit_def fold_Driver_set)

lemma map_of_raw_set:
  "map_of (raw_set (k, v) d) = (map_of d)(k := (if v = PNone then None else Some v))"
  by (simp add: raw_set_def update_conv' delete_conv')

lemma map_of_fold_raw_set:
  "distinct (map fst xs) \<Longrightarrow>
   map_of (fold raw_set xs d) k' =
     (case map_of xs k' of None \<Rightarrow> map_of d k'
      | Some v \<Rightarrow> if v = PNone then None else Some v)"
proof (induction xs arbitrary: d)
  case Nil
  show ?case by simp
next
  case (Cons x xs)
  obtain k v where x: "x = (k, v)" by (cases x)
  from Cons.prems have d: "distinct (map fst xs)" and nk: "k \<notin> fst ` set xs"
    by (auto simp: x)
  from nk have none: "map_of xs k = None" by (simp add: map_of_eq_None_iff)
  show ?case
    using none by (auto simp: x Cons.IH [OF d] map_of_raw_set split: option.splits)
qed

lemma raw_set_id:
  "map_of d (fst kv) = (if snd kv = PNone then None else Some (snd kv)) \<Longrightarrow> raw_set kv d = d"
  by (auto simp: raw_set_def update_triv map_of_eq_None_iff)

lemma fold_raw_set_id:
  "(\<forall>kv \<in> set ys. map_of d (fst kv) = (if snd kv = PNone then None else Some (snd kv)))
   \<Longrightarrow> fold raw_set ys d = d"
  by (induction ys) (simp_all add: raw_set_id)

lemma fold_raw_set_twice:
  assumes "distinct (map fst xs)"
  shows "fold raw_set xs (fold raw_set xs d) = fold raw_set xs d"
proof (rule fold_raw_set_id, rule ballI)
  fix kv assume kv: "kv \<in> set xs"
  then have "map_of xs (fst kv) = Some (snd kv)"
    using assms by (metis map_of_is_SomeI prod.collapse)
  then show "map_of (fold raw_set xs d) (fst kv) =
      (if snd kv = PNone then None else Some (snd kv))"
    by (simp add: map_of_fold_raw_set [OF assms])
qed

text \<open>
  C4. \<^verbatim>\<open>commit()\<close> calls \<^verbatim>\<open>Driver.set\<close> once for every pending write, in insertion
  order; it leaves the cache, the read set and the pending writes as they are; and a
  second commit over the same pending writes leaves the store exactly as the first did.
\<close>

theorem commit_semantics:
  "driver_calls (CacheDriver_commit s) =
     driver_calls s @ map (\<lambda>(k, v). CallSet k v) (dict_items (pending_writes s)) \<and>
   cache (CacheDriver_commit s) = cache s \<and>
   reads (CacheDriver_commit s) = reads s \<and>
   pending_writes (CacheDriver_commit s) = pending_writes s \<and>
   db (CacheDriver_commit s) = fold raw_set (dict_items (pending_writes s)) (db s) \<and>
   db (CacheDriver_commit (CacheDriver_commit s)) = db (CacheDriver_commit s)"
  by (simp add: commit_unfold fold_raw_set_twice dict_items_def)

subsection \<open>Fetches per key\<close>

lemma step_keeps_cached:
  assumes "dict_get (cache s) k \<noteq> PNone" "x \<noteq> OpSet k PNone"
  shows "dict_get (cache (step x s)) k \<noteq> PNone \<and> fetches k (step x s) = fetches k s"
proof (cases x)
  case (OpGet k')
  show ?thesis
  proof (cases "dict_get (cache s) k' = PNone")
    case True
    with assms have "k' \<noteq> k" by auto
    with True assms show ?thesis
      by (simp add: OpGet get_miss dict_get_update fetches_def)
  next
    case False
    with assms show ?thesis
      by (simp add: OpGet get_hit deduct_read_def fetches_def)
  qed
next
  case (OpSet k' v')
  with assms show ?thesis
    by (auto simp: dict_get_update fetches_def)
next
  case OpCommit
  have "count_list (map (\<lambda>(k, v). CallSet k v) xs) (CallGet k) = 0" for xs
    by (induction xs) auto
  with assms show ?thesis
    by (simp add: OpCommit commit_unfold fetches_def)
qed

lemma run_keeps_cached:
  "dict_get (cache s) k \<noteq> PNone \<Longrightarrow> OpSet k PNone \<notin> set ops \<Longrightarrow>
   fetches k (fold step ops s) = fetches k s"
proof (induction ops arbitrary: s)
  case Nil
  show ?case by simp
next
  case (Cons x xs)
  from Cons.prems have "x \<noteq> OpSet k PNone" by auto
  from step_keeps_cached [OF Cons.prems(1) this] Cons show ?case by simp
qed

lemma get_fetches_le: "fetches k (snd (CacheDriver_get k s)) \<le> fetches k s + 1"
  by (cases "dict_get (cache s) k = PNone")
    (simp_all add: get_miss get_hit deduct_read_def fetches_def)

lemma get_caches_result:
  "fst (CacheDriver_get k s) \<noteq> PNone \<Longrightarrow> dict_get (cache (snd (CacheDriver_get k s))) k \<noteq> PNone"
  by (cases "dict_get (cache s) k = PNone")
    (simp_all add: get_miss get_hit deduct_read_def dict_get_update)

lemma get_none_refetch:
  assumes "fst (CacheDriver_get k s) = PNone"
  shows "fetches k (snd (CacheDriver_get k s)) = fetches k s + 1 \<and>
         fetches k (snd (CacheDriver_get k (snd (CacheDriver_get k s)))) = fetches k s + 2"
proof -
  have c: "dict_get (cache s) k = PNone"
  proof (rule ccontr)
    assume "dict_get (cache s) k \<noteq> PNone"
    with assms show False by (simp add: get_hit)
  qed
  with assms have d: "dict_get (db s) k = PNone" by (simp add: get_miss)
  let ?s1 = "snd (CacheDriver_get k s)"
  have c1: "dict_get (cache ?s1) k = PNone" by (simp add: get_miss [OF c] d dict_get_update)
  have f1: "fetches k ?s1 = fetches k s + 1" by (simp add: get_miss [OF c] fetches_def)
  have "fetches k (snd (CacheDriver_get k ?s1)) = fetches k ?s1 + 1"
    by (simp add: get_miss [OF c1] fetches_def)
  with f1 show ?thesis by simp
qed

text \<open>
  C2, as the code has it. Once \<^verbatim>\<open>get(k)\<close> has returned a value other than None, no later
  operation of the context fetches \<open>k\<close> from the \<^verbatim>\<open>Driver\<close> again, as long as None is
  not written to \<open>k\<close>, and that \<^verbatim>\<open>get\<close> itself made at most one fetch. A \<^verbatim>\<open>get(k)\<close>
  that returns None has fetched \<open>k\<close>, and the \<^verbatim>\<open>get(k)\<close> that directly follows it
  fetches \<open>k\<close> once more.
\<close>

theorem fetch_once_when_present:
  "(fst (CacheDriver_get k s) \<noteq> PNone \<and> OpSet k PNone \<notin> set ops \<longrightarrow>
      fetches k (run ops (snd (CacheDriver_get k s))) = fetches k (snd (CacheDriver_get k s)) \<and>
      fetches k (run ops (snd (CacheDriver_get k s))) \<le> fetches k s + 1) \<and>
   (fst (CacheDriver_get k s) = PNone \<longrightarrow>
      fetches k (snd (CacheDriver_get k s)) = fetches k s + 1 \<and>
      fetches k (snd (CacheDriver_get k (snd (CacheDriver_get k s)))) = fetches k s + 2)"
proof (intro conjI impI)
  assume a: "fst (CacheDriver_get k s) \<noteq> PNone \<and> OpSet k PNone \<notin> set ops"
  then have h: "fst (CacheDriver_get k s) \<noteq> PNone" and n: "OpSet k PNone \<notin> set ops" by simp_all
  from run_keeps_cached [OF get_caches_result [OF h] n]
  show "fetches k (run ops (snd (CacheDriver_get k s))) = fetches k (snd (CacheDriver_get k s))"
    by (simp add: run_def)
  with get_fetches_le [of k s]
  show "fetches k (run ops (snd (CacheDriver_get k s))) \<le> fetches k s + 1" by simp
next
  assume "fst (CacheDriver_get k s) = PNone"
  from get_none_refetch [OF this]
  show "fetches k (snd (CacheDriver_get k s)) = fetches k s + 1"
    and "fetches k (snd (CacheDriver_get k (snd (CacheDriver_get k s)))) = fetches k s + 2"
    by simp_all
qed

theorem fetch_once_when_present_witness:
  "fst (CacheDriver_get ''k'' (CacheDriver_init [(''k'', PInt 7)] ''.'' sentinel0)) \<noteq> PNone \<and>
   OpSet ''k'' PNone \<notin> set [OpGet ''k'', OpSet ''j'' PNone, OpCommit, OpGet ''k''] \<and>
   fetches ''k'' (run [OpGet ''k'', OpSet ''j'' PNone, OpCommit, OpGet ''k'']
     (snd (CacheDriver_get ''k'' (CacheDriver_init [(''k'', PInt 7)] ''.'' sentinel0)))) = 1 \<and>
   fst (CacheDriver_get ''k'' (CacheDriver_init [] ''.'' sentinel0)) = PNone \<and>
   fetches ''k'' (snd (CacheDriver_get ''k''
     (snd (CacheDriver_get ''k'' (CacheDriver_init [] ''.'' sentinel0))))) = 2"
proof -
  have h: "fst (CacheDriver_get ''k'' (CacheDriver_init [(''k'', PInt 7)] ''.'' sentinel0)) \<noteq> PNone"
    by (simp add: CacheDriver_init_def CacheDriver_get_def Driver_get_def dict_get_def
        deduct_read_def Let_def)
  have n: "OpSet ''k'' PNone \<notin> set [OpGet ''k'', OpSet ''j'' PNone, OpCommit, OpGet ''k'']"
    by simp
  have f: "fetches ''k'' (snd (CacheDriver_get ''k'' (CacheDriver_init [(''k'', PInt 7)] ''.'' sentinel0))) = 1"
    by (simp add: CacheDriver_init_def CacheDriver_get_def Driver_get_def dict_get_def
        deduct_read_def fetches_def Let_def)
  have e: "fst (CacheDriver_get ''k'' (CacheDriver_init [] ''.'' sentinel0)) = PNone"
    by (simp add: CacheDriver_init_def CacheDriver_get_def Driver_get_def dict_get_def
        deduct_read_def Let_def)
  have z: "fetches ''k'' (CacheDriver_init [] ''.'' sentinel0) = 0"
    by (simp add: fetches_def CacheDriver_init_def)
  from fetch_once_when_present
    [of "''k''" "CacheDriver_init [(''k'', PInt 7)] ''.'' sentinel0"
        "[OpGet ''k'', OpSet ''j'' PNone, OpCommit, OpGet ''k'']"] h n f
  have 1: "fetches ''k'' (run [OpGet ''k'', OpSet ''j'' PNone, OpCommit, OpGet ''k'']
     (snd (CacheDriver_get ''k'' (CacheDriver_init [(''k'', PInt 7)] ''.'' sentinel0)))) = 1"
    by simp
  from fetch_once_when_present [of "''k''" "CacheDriver_init [] ''.'' sentinel0" "[]"] e z
  have 2: "fetches ''k'' (snd (CacheDriver_get ''k''
     (snd (CacheDriver_get ''k'' (CacheDriver_init [] ''.'' sentinel0))))) = 2"
    by simp
  from h n 1 e 2 show ?thesis by simp
qed

text \<open>
  C2, as stated, fails for a key the store does not hold: the None that \<^verbatim>\<open>get\<close> caches
  is taken for a miss by the next \<^verbatim>\<open>get\<close>, which fetches again.
\<close>

theorem fetch_absent_key_twice:
  "\<not> fetches ''k'' (run [OpGet ''k'', OpGet ''k''] (CacheDriver_init [] ''.'' sentinel0)) \<le> 1"
  by (simp add: run_def fetches_def CacheDriver_init_def CacheDriver_get_def Driver_get_def
      dict_get_def deduct_read_def Let_def)

section \<open>Properties of key composition\<close>




section \<open>Properties of coordinate validation\<close>

lemma join_concat:
  "d \<noteq> [] \<Longrightarrow> drop_tail (length d) (concat (map (\<lambda>x. x @ d) xs)) = join d xs"
proof (induction d xs rule: join.induct)
  case (1 d)
  then show ?case by (simp add: drop_tail_def)
next
  case (2 d x)
  then show ?case by (simp add: drop_tail_def)
next
  case (3 d x y ys)
  then have IH: "take (length (concat (map (\<lambda>x. x @ d) (y # ys))) - length d) (concat (map (\<lambda>x. x @ d) (y # ys))) = join d (y # ys)"
    by (simp add: drop_tail_def)
  have le: "length d \<le> length (concat (map (\<lambda>x. x @ d) (y # ys)))" by simp
  show ?case using 3(2) IH le
    by (simp add: drop_tail_def)
qed

lemma elems_joined:
  "d \<noteq> [] \<Longrightarrow> drop_tail (length d) (concat (map (\<lambda>k. py_str k @ d) ks)) = join d (map py_str ks)"
  using join_concat [of d "map py_str ks"] by (simp add: comp_def)

lemma validate_elems_ok:
  "list_all (\<lambda>k. type_of k \<noteq> TSlice) ks \<Longrightarrow> \<not> list_ex has_delimiter ks \<Longrightarrow>
   validate_elems d ks acc = Inr (acc @ concat (map (\<lambda>k. py_str k @ d) ks))"
  by (induction ks arbitrary: acc) (auto simp: has_delimiter_def Let_def)

lemma validate_elems_bad:
  "list_ex has_delimiter ks \<or> list_ex (\<lambda>k. type_of k = TSlice) ks \<Longrightarrow>
   \<exists>a. validate_elems d ks acc = Inl (AssertionError a) \<and>
       (a = SlicesProhibited \<or> a = IllegalDelimiter \<or> a = IllegalSeparator)"
  by (induction ks arbitrary: acc) (auto simp: has_delimiter_def Let_def)

lemma validate_key_valid:
  assumes "h_delimiter h = DELIMITER" "0 < MAX_HASH_DIMENSIONS L" "slice_free key"
    and "\<not> coordinate_invalid L key"
  shows "Hash_validate_key L h key = Inr (coordinate_string key)"
proof (cases key)
  case (KTuple ks)
  with assms have sf: "list_all (\<lambda>k. type_of k \<noteq> TSlice) ks" and nd: "\<not> list_ex has_delimiter ks"
    and len: "length ks \<le> MAX_HASH_DIMENSIONS L"
    and sz: "length (join DELIMITER (map py_str ks)) \<le> MAX_KEY_SIZE L"
    by (auto simp: slice_free_def coordinate_invalid_def dims_def coordinate_string_def)
  have "DELIMITER \<noteq> []" by (simp add: DELIMITER_def)
  from elems_joined [OF this] sz len show ?thesis
    by (simp add: KTuple Hash_validate_key_def assms(1) validate_elems_ok [OF sf nd]
        check_key_size_def coordinate_string_def dims_def)
next
  case (KScalar k)
  with assms show ?thesis
    by (auto simp: Hash_validate_key_def coordinate_invalid_def dims_def coordinate_string_def
        has_delimiter_def check_key_size_def Let_def)
qed

lemma validate_key_invalid:
  assumes "h_delimiter h = DELIMITER" "0 < MAX_HASH_DIMENSIONS L" "slice_free key"
    and "coordinate_invalid L key"
  shows "\<exists>a. Hash_validate_key L h key = Inl (AssertionError a)"
proof (cases key)
  case (KTuple ks)
  show ?thesis
  proof (cases "length ks \<le> MAX_HASH_DIMENSIONS L")
    case False
    then show ?thesis by (simp add: KTuple Hash_validate_key_def)
  next
    case True
    note len = this
    show ?thesis
    proof (cases "list_ex has_delimiter ks")
      case True
      then obtain a where "validate_elems (h_delimiter h) ks [] = Inl (AssertionError a)"
        using validate_elems_bad [of ks "h_delimiter h" "[]"] by blast
      with len show ?thesis by (simp add: KTuple Hash_validate_key_def)
    next
      case False
      from assms(3) have sf: "list_all (\<lambda>k. type_of k \<noteq> TSlice) ks"
        by (simp add: KTuple slice_free_def)
      from assms(4) len False have sz: "MAX_KEY_SIZE L < length (join DELIMITER (map py_str ks))"
        by (auto simp: KTuple coordinate_invalid_def dims_def coordinate_string_def)
      have "DELIMITER \<noteq> []" by (simp add: DELIMITER_def)
      from elems_joined [OF this] sz len show ?thesis
        by (simp add: KTuple Hash_validate_key_def assms(1) validate_elems_ok [OF sf False]
            check_key_size_def)
    qed
  qed
next
  case (KScalar k)
  with assms show ?thesis
    by (auto simp: Hash_validate_key_def coordinate_invalid_def dims_def coordinate_string_def
        has_delimiter_def check_key_size_def Let_def)
qed


lemma getitem_fail: "Hash_validate_key L h key = Inl e \<Longrightarrow> Hash_getitem L h key s = (Inl e, s)"
  by (simp add: Hash_getitem_def)

lemma setitem_fail: "Hash_validate_key L h key = Inl e \<Longrightarrow> Hash_setitem L h key v s = (Inl e, s)"
  by (simp add: Hash_setitem_def)

lemma all_fail: "Hash_validate_key L h (KTuple args) = Inl e \<Longrightarrow> Hash_all L h args s = (Inl e, s)"
  by (simp add: Hash_all_def Hash_prefix_for_args_def)

lemma clear_fail: "Hash_validate_key L h (KTuple args) = Inl e \<Longrightarrow> Hash_clear L h args s = (Inl e, s)"
  by (simp add: Hash_clear_def Hash_items_def Hash_prefix_for_args_def)

lemma getitem_ok: "Hash_validate_key L h key = Inr k \<Longrightarrow> \<not> isl (fst (Hash_getitem L h key s))"
  by (simp add: Hash_getitem_def split: prod.splits)

lemma setitem_ok: "Hash_validate_key L h key = Inr k \<Longrightarrow> \<not> isl (fst (Hash_setitem L h key v s))"
  by (simp add: Hash_setitem_def Hash_set_def)

lemma all_ok: "Hash_validate_key L h (KTuple args) = Inr k \<Longrightarrow> \<not> isl (fst (Hash_all L h args s))"
  by (simp add: Hash_all_def Hash_prefix_for_args_def Let_def split: prod.splits)

lemma clear_ok: "Hash_validate_key L h (KTuple args) = Inr k \<Longrightarrow> \<not> isl (fst (Hash_clear L h args s))"
  by (simp add: Hash_clear_def Hash_items_def Hash_prefix_for_args_def Let_def split: prod.splits sum.splits)

text \<open>
  C5, as the code has it. For a coordinate whose tuple elements are not slices, every
  \<^verbatim>\<open>get\<close>, \<^verbatim>\<open>set\<close>, \<^verbatim>\<open>all\<close> and \<^verbatim>\<open>clear\<close> fails with an assertion error exactly when
  the coordinate has more than \<^verbatim>\<open>MAX_HASH_DIMENSIONS\<close> dimensions, or the string form of a
  dimension contains the field delimiter or the argument separator, or the composed
  coordinate string alone is longer than \<^verbatim>\<open>MAX_KEY_SIZE\<close>; a failing call leaves the
  state as it was.
\<close>

theorem coordinate_validation:
  assumes "h_delimiter h = DELIMITER" and "0 < MAX_HASH_DIMENSIONS L" and "slice_free key"
  shows
    "(coordinate_invalid L key \<longrightarrow>
        (\<exists>a. Hash_validate_key L h key = Inl (AssertionError a) \<and>
             Hash_getitem L h key s = (Inl (AssertionError a), s) \<and>
             Hash_setitem L h key v s = (Inl (AssertionError a), s) \<and>
             (\<forall>args. key = KTuple args \<longrightarrow>
                Hash_all L h args s = (Inl (AssertionError a), s) \<and>
                Hash_clear L h args s = (Inl (AssertionError a), s)))) \<and>
     (\<not> coordinate_invalid L key \<longrightarrow>
        Hash_validate_key L h key = Inr (coordinate_string key) \<and>
        \<not> isl (fst (Hash_getitem L h key s)) \<and>
        \<not> isl (fst (Hash_setitem L h key v s)) \<and>
        (\<forall>args. key = KTuple args \<longrightarrow>
           \<not> isl (fst (Hash_all L h args s)) \<and> \<not> isl (fst (Hash_clear L h args s))))"
proof (cases "coordinate_invalid L key")
  case True
  from validate_key_invalid [OF assms True]
  obtain a where a: "Hash_validate_key L h key = Inl (AssertionError a)" by blast
  have "Hash_getitem L h key s = (Inl (AssertionError a), s)"
    and "Hash_setitem L h key v s = (Inl (AssertionError a), s)"
    and "\<forall>args. key = KTuple args \<longrightarrow>
                Hash_all L h args s = (Inl (AssertionError a), s) \<and>
                Hash_clear L h args s = (Inl (AssertionError a), s)"
    using a by (auto simp: getitem_fail setitem_fail all_fail clear_fail)
  with a True show ?thesis by blast
next
  case False
  note ok = validate_key_valid [OF assms False]
  have "\<forall>args. key = KTuple args \<longrightarrow>
           \<not> isl (fst (Hash_all L h args s)) \<and> \<not> isl (fst (Hash_clear L h args s))"
    using ok by (auto dest: all_ok clear_ok)
  with False ok getitem_ok [OF ok] setitem_ok [OF ok] show ?thesis by blast
qed

lemma sublist_single: "sublist [c] xs \<longleftrightarrow> c \<in> set xs"
  by (induction xs) (auto simp: sublist_Cons_right)

lemma has_delimiter_chars:
  "has_delimiter k \<longleftrightarrow> CHR '':'' \<in> set (py_str k) \<or> CHR ''.'' \<in> set (py_str k)"
  by (simp add: has_delimiter_def DELIMITER_def INDEX_SEPARATOR_def sublist_single)

theorem coordinate_validation_witness:
  "Hash_setitem limits0 (Hash_init state0 ''blah'' ''scoob'' PNone)
     (KScalar (PStr ''stu:123'')) (PInt 123) state0 = (Inl (AssertionError IllegalDelimiter), state0) \<and>
   Hash_validate_key limits0 (Hash_init state0 ''blah'' ''scoob'' PNone)
     (KTuple [PStr ''stu'', PStr ''raghu'']) = Inr ''stu:raghu''"
proof -
  let ?h = "Hash_init state0 ''blah'' ''scoob'' PNone"
  have d: "h_delimiter ?h = DELIMITER" by (simp add: Hash_init_def)
  have m: "0 < MAX_HASH_DIMENSIONS limits0" by (simp add: limits0_def)
  have s1: "slice_free (KScalar (PStr ''stu:123''))" by (simp add: slice_free_def)
  have s2: "slice_free (KTuple [PStr ''stu'', PStr ''raghu''])" by (simp add: slice_free_def)
  have i1: "coordinate_invalid limits0 (KScalar (PStr ''stu:123''))"
    by (simp add: coordinate_invalid_def dims_def has_delimiter_chars)
  have i2: "\<not> coordinate_invalid limits0 (KTuple [PStr ''stu'', PStr ''raghu''])"
    by (simp add: coordinate_invalid_def dims_def has_delimiter_chars coordinate_string_def
        limits0_def DELIMITER_def)
  have e: "Hash_validate_key limits0 ?h (KScalar (PStr ''stu:123'')) = Inl (AssertionError IllegalDelimiter)"
    by (simp add: Hash_validate_key_def DELIMITER_def sublist_single)
  from coordinate_validation [OF d m s1, of state0 "PInt 123"] i1 e
  have "Hash_setitem limits0 ?h (KScalar (PStr ''stu:123'')) (PInt 123) state0 =
      (Inl (AssertionError IllegalDelimiter), state0)"
    by auto
  moreover from coordinate_validation [OF d m s2, of state0 "PInt 123"] i2
  have "Hash_validate_key limits0 ?h (KTuple [PStr ''stu'', PStr ''raghu'']) = Inr ''stu:raghu''"
    by (simp add: coordinate_string_def dims_def DELIMITER_def)
  ultimately show ?thesis by simp
qed

text \<open>
  C5, as stated, fails: a coordinate of \<^verbatim>\<open>MAX_KEY_SIZE\<close> characters is more than the
  budget left after the prefix \<^verbatim>\<open>blah.scoob:\<close>, and the lookup goes through.
\<close>

theorem long_coordinate_accepted:
  "spec_coordinate_invalid limits0 (Hash_init state0 ''blah'' ''scoob'' PNone)
     (KScalar (PStr (replicate 1024 CHR ''a''))) \<and>
   \<not> isl (fst (Hash_getitem limits0 (Hash_init state0 ''blah'' ''scoob'' PNone)
     (KScalar (PStr (replicate 1024 CHR ''a''))) state0))"
proof -
  have v: "Hash_validate_key limits0 (Hash_init state0 ''blah'' ''scoob'' PNone)
     (KScalar (PStr (replicate 1024 CHR ''a''))) = Inr (replicate 1024 CHR ''a'')"
    by (simp add: Hash_validate_key_def DELIMITER_def INDEX_SEPARATOR_def sublist_single
        check_key_size_def limits0_def)
  have "spec_coordinate_invalid limits0 (Hash_init state0 ''blah'' ''scoob'' PNone)
     (KScalar (PStr (replicate 1024 CHR ''a'')))"
    by (simp add: spec_coordinate_invalid_def dims_def coordinate_string_def limits0_def
        Hash_init_def make_key_def state0_def CacheDriver_init_def DELIMITER_def INDEX_SEPARATOR_def)
  with getitem_ok [OF v] show ?thesis by simp
qed

text \<open>
  C10. A tuple coordinate with a slice among its elements is refused with an assertion
  error, raised in the dimension check or in the loop over the elements, before the key
  is composed; \<^verbatim>\<open>get\<close>, \<^verbatim>\<open>set\<close>, \<^verbatim>\<open>all\<close> and \<^verbatim>\<open>clear\<close> return it with the state as
  it was.
\<close>

theorem slice_in_tuple_rejected:
  assumes "list_ex (\<lambda>k. type_of k = TSlice) ks"
  shows "\<exists>a. Hash_validate_key L h (KTuple ks) = Inl (AssertionError a) \<and>
             (a = TooManyDimensions (length ks) \<or> a = SlicesProhibited \<or>
              a = IllegalDelimiter \<or> a = IllegalSeparator) \<and>
             Hash_getitem L h (KTuple ks) s = (Inl (AssertionError a), s) \<and>
             Hash_setitem L h (KTuple ks) v s = (Inl (AssertionError a), s) \<and>
             Hash_all L h ks s = (Inl (AssertionError a), s) \<and>
             Hash_clear L h ks s = (Inl (AssertionError a), s)"
proof -
  have "\<exists>a. Hash_validate_key L h (KTuple ks) = Inl (AssertionError a) \<and>
             (a = TooManyDimensions (length ks) \<or> a = SlicesProhibited \<or>
              a = IllegalDelimiter \<or> a = IllegalSeparator)"
  proof (cases "length ks \<le> MAX_HASH_DIMENSIONS L")
    case False
    then show ?thesis by (simp add: Hash_validate_key_def)
  next
    case True
    from assms obtain a where "validate_elems (h_delimiter h) ks [] = Inl (AssertionError a)"
      and "a = SlicesProhibited \<or> a = IllegalDelimiter \<or> a = IllegalSeparator"
      using validate_elems_bad [of ks "h_delimiter h" "[]"] by blast
    with True show ?thesis by (simp add: Hash_validate_key_def)
  qed
  then obtain a where a: "Hash_validate_key L h (KTuple ks) = Inl (AssertionError a)"
    and k: "a = TooManyDimensions (length ks) \<or> a = SlicesProhibited \<or>
              a = IllegalDelimiter \<or> a = IllegalSeparator" by blast
  from a k getitem_fail [OF a] setitem_fail [OF a] all_fail [OF a] clear_fail [OF a]
  show ?thesis by blast
qed

theorem slice_in_tuple_rejected_witness:
  "list_ex (\<lambda>k. type_of k = TSlice) [PStr ''a'', PSlice ''slice(1, 2, None)''] \<and>
   Hash_setitem limits0 (Hash_init state0 ''blah'' ''scoob'' PNone)
     (KTuple [PStr ''a'', PSlice ''slice(1, 2, None)'']) (PInt 1) state0 =
     (Inl (AssertionError SlicesProhibited), state0)"
proof -
  have h: "list_ex (\<lambda>k. type_of k = TSlice) [PStr ''a'', PSlice ''slice(1, 2, None)'']" by simp
  have e: "Hash_validate_key limits0 (Hash_init state0 ''blah'' ''scoob'' PNone)
     (KTuple [PStr ''a'', PSlice ''slice(1, 2, None)'']) = Inl (AssertionError SlicesProhibited)"
    by (simp add: Hash_validate_key_def limits0_def DELIMITER_def INDEX_SEPARATOR_def
        sublist_single Hash_init_def)
  from slice_in_tuple_rejected [OF h, of limits0 "Hash_init state0 ''blah'' ''scoob'' PNone" state0 "PInt 1"] e h
  show ?thesis by auto
qed

section \<open>Properties of Hash lookups\<close>

lemma type_of_ContractingDecimal [simp]: "type_of (ContractingDecimal str) = TDecimal"
  by (simp add: ContractingDecimal_def)

lemma Hash_get_unfold:
  "Hash_get h item s =
     (let value = fst (CacheDriver_get (h_key h @ h_delimiter h @ item) s);
          value = (if value = PNone then h_default_value h else value)
      in (if type_of value = TFloat \<or> type_of value = TDecimal
          then ContractingDecimal (py_str value) else value,
          snd (CacheDriver_get (h_key h @ h_delimiter h @ item) s)))"
  by (simp add: Hash_get_def Let_def split: prod.splits)

text \<open>
  C9. \<^verbatim>\<open>Hash._get\<close> never returns a native float. For a coordinate the driver reports
  unset it returns the configured default: as it is when the default is neither a float
  nor a decimal, and as the ContractingDecimal of its string form otherwise. A stored
  float or decimal comes back as the ContractingDecimal of its string form. Item lookup
  returns what \<^verbatim>\<open>_get\<close> returns for the validated coordinate.
\<close>

theorem hash_default_and_decimal:
  "type_of (fst (Hash_get h item s)) \<noteq> TFloat \<and>
   (fst (CacheDriver_get (h_key h @ h_delimiter h @ item) s) = PNone \<longrightarrow>
      (type_of (h_default_value h) \<noteq> TFloat \<and> type_of (h_default_value h) \<noteq> TDecimal \<longrightarrow>
         fst (Hash_get h item s) = h_default_value h) \<and>
      (type_of (h_default_value h) = TFloat \<or> type_of (h_default_value h) = TDecimal \<longrightarrow>
         fst (Hash_get h item s) = ContractingDecimal (py_str (h_default_value h)))) \<and>
   (fst (CacheDriver_get (h_key h @ h_delimiter h @ item) s) \<noteq> PNone \<longrightarrow>
      (type_of (fst (CacheDriver_get (h_key h @ h_delimiter h @ item) s)) = TFloat \<or>
       type_of (fst (CacheDriver_get (h_key h @ h_delimiter h @ item) s)) = TDecimal \<longrightarrow>
         fst (Hash_get h item s) =
           ContractingDecimal (py_str (fst (CacheDriver_get (h_key h @ h_delimiter h @ item) s))))) \<and>
   (Hash_validate_key L h key = Inr item \<longrightarrow>
      fst (Hash_getitem L h key s) = Inr (fst (Hash_get h item s)))"
  by (auto simp: Hash_get_unfold Hash_getitem_def Let_def split: prod.splits)

theorem hash_default_and_decimal_witness:
  "fst (Hash_getitem limits0 (Hash_init state0 ''blah'' ''scoob'' (PInt 0))
      (KScalar (PStr ''hello'')) state0) = Inr (PInt 0) \<and>
   fst (Hash_get (Hash_init state0 ''blah'' ''scoob'' (PFloat ''0.0'')) ''hello'' state0) =
      PDecimal ''0.0''"
proof -
  let ?h = "Hash_init state0 ''blah'' ''scoob'' (PInt 0)"
  let ?g = "Hash_init state0 ''blah'' ''scoob'' (PFloat ''0.0'')"
  have u: "fst (CacheDriver_get (h_key ?h @ h_delimiter ?h @ ''hello'') state0) = PNone"
    by (simp add: state0_def CacheDriver_init_def CacheDriver_get_def Driver_get_def
        dict_get_def deduct_read_def Let_def)
  have u': "fst (CacheDriver_get (h_key ?g @ h_delimiter ?g @ ''hello'') state0) = PNone"
    by (simp add: state0_def CacheDriver_init_def CacheDriver_get_def Driver_get_def
        dict_get_def deduct_read_def Let_def)
  have v: "Hash_validate_key limits0 ?h (KScalar (PStr ''hello'')) = Inr ''hello''"
    by (simp add: Hash_validate_key_def DELIMITER_def INDEX_SEPARATOR_def sublist_single
        check_key_size_def limits0_def)
  from hash_default_and_decimal [of ?h "''hello''" state0 limits0 "KScalar (PStr ''hello'')"] u v
  have "fst (Hash_getitem limits0 ?h (KScalar (PStr ''hello'')) state0) = Inr (PInt 0)"
    by (simp add: Hash_init_def)
  moreover
  from hash_default_and_decimal [of ?g "''hello''" state0 limits0 "KScalar (PStr ''hello'')"] u'
  have "fst (Hash_get ?g ''hello'' state0) = PDecimal ''0.0''"
    by (simp add: Hash_init_def ContractingDecimal_def)
  ultimately show ?thesis by simp
qed

section \<open>Properties of prefix queries\<close>




lemma iter_loop_subset: "set (iter_loop stop p len ys l) \<subseteq> set l \<union> set ys"
proof (induction ys arbitrary: l)
  case Nil
  show ?case by simp
next
  case (Cons a ys)
  from Cons.IH [of "l @ [a]"]
  have "set (iter_loop stop p len ys (l @ [a])) \<subseteq> set l \<union> set (a # ys)" by auto
  then show ?case by (auto simp: Let_def)
qed



lemma db_seek_subset: "set (db_seek p s) \<subseteq> fst ` set (db s)"
  using set_dropWhileD [of _ "\<lambda>k. k < p" "sort (remdups (map fst (db s)))"]
  by (auto simp: db_seek_def)

lemma Driver_iter_subset: "set (fst (Driver_iter p len s)) \<subseteq> fst ` set (db s)"
  using iter_loop_subset [of "stop_iter_response s" p len "db_seek p s" "[]"] db_seek_subset [of p s]
  by (auto simp: Driver_iter_def)



lemma Driver_iter_state:
  "snd (Driver_iter p len s) = s\<lparr>driver_calls := driver_calls s @ [CallIter p len]\<rparr>"
  by (simp add: Driver_iter_def)

lemma fetch_keys_db: "db (snd (fetch_keys ks items s)) = db s"
  by (induction ks arbitrary: items s) (simp_all add: Driver_get_def)






lemma items_unfold:
  "fst (ContractDriver_items p s) =
     fst (fetch_keys
            (filter (\<lambda>k. k \<notin> set (map fst (cache_items p (cache s))))
               (remdups (fst (Driver_iter p 0 s))))
            (cache_items p (cache s)) (snd (Driver_iter p 0 s)))"
  by (simp add: ContractDriver_items_def Let_def split: prod.splits)

text \<open>
  C3. The merge holds (\<open>items_merged_view\<close>), but an entry whose value is None is not
  left out: after a persisted key is deleted in the context (None is written to it),
  \<^verbatim>\<open>items\<close> still returns the key, mapped to None, whatever the iterator's sentinel.
\<close>

theorem items_keeps_deleted_key:
  "fst (ContractDriver_items ''blah.scoob:''
         (CacheDriver_set ''blah.scoob:1'' PNone
            (CacheDriver_init [(''blah.scoob:1'', PInt 123)] ''.'' stop))) =
     [(''blah.scoob:1'', PNone)]"
proof -
  let ?s = "CacheDriver_set ''blah.scoob:1'' PNone
              (CacheDriver_init [(''blah.scoob:1'', PInt 123)] ''.'' stop)"
  have c: "cache ?s = [(''blah.scoob:1'', PNone)]"
    by (simp add: CacheDriver_init_def)
  have items: "cache_items ''blah.scoob:'' (cache ?s) = [(''blah.scoob:1'', PNone)]"
    unfolding c by code_simp
  have "set (fst (Driver_iter ''blah.scoob:'' 0 ?s)) \<subseteq> {''blah.scoob:1''}"
    using Driver_iter_subset [of "''blah.scoob:''" 0 ?s] by (simp add: CacheDriver_init_def)
  then have "filter (\<lambda>k. k \<notin> set (map fst (cache_items ''blah.scoob:'' (cache ?s))))
               (remdups (fst (Driver_iter ''blah.scoob:'' 0 ?s))) = []"
    unfolding items by (auto simp: filter_empty_conv)
  then show ?thesis
    by (simp only: items_unfold fetch_keys.simps fst_conv items)
qed

section \<open>Properties of the foreign bindings\<close>
















section \<open>Properties of LogEvent\<close>

lemma issubclass_allowed: "issubclass t allowed_types \<longleftrightarrow> t \<in> set allowed_types"
  by (auto simp: issubclass_def allowed_types_def)

lemma check_arg_types_fails:
  "\<exists>(n, a) \<in> set xs. \<exists>t \<in> set (as_tuple (arg_type a)). t \<notin> set allowed_types \<Longrightarrow>
   check_arg_types xs = Inl (AssertionError BadArgumentType)"
proof (induction xs)
  case Nil
  then show ?case by simp
next
  case (Cons x xs)
  obtain n a where x: "x = (n, a)" by (cases x)
  show ?case
  proof (cases "list_all (\<lambda>t. issubclass t allowed_types) (as_tuple (arg_type a))")
    case False
    then show ?thesis by (simp add: x)
  next
    case True
    then have "\<not> (\<exists>t \<in> set (as_tuple (arg_type a)). t \<notin> set allowed_types)"
      by (auto simp: list_all_iff issubclass_allowed)
    with Cons.prems have "\<exists>(n, a) \<in> set xs. \<exists>t \<in> set (as_tuple (arg_type a)). t \<notin> set allowed_types"
      by (auto simp: x)
    from Cons.IH [OF this] True show ?thesis by (simp add: x)
  qed
qed

lemma LogEvent_init_fails:
  assumes "dict_items args = [] \<or>
           3 < length (filter (\<lambda>(n, a). is_indexed a) (dict_items args)) \<or>
           (\<exists>(n, a) \<in> set (dict_items args). \<exists>t \<in> set (as_tuple (arg_type a)). t \<notin> set allowed_types)"
  shows "\<exists>a. LogEvent_init s contract name args = Inl (AssertionError a)"
proof (cases "dict_items args = [] \<or> 3 < length (filter (\<lambda>(n, a). is_indexed a) (dict_items args))")
  case True
  then show ?thesis by (auto simp: LogEvent_init_def)
next
  case False
  with assms have "\<exists>(n, a) \<in> set (dict_items args). \<exists>t \<in> set (as_tuple (arg_type a)). t \<notin> set allowed_types"
    by blast
  from check_arg_types_fails [OF this] show ?thesis by (simp add: LogEvent_init_def)
qed

lemma check_data_ok: "list_all (arg_ok d) xs \<Longrightarrow> check_data xs d = Inr ()"
  by (induction xs) (auto simp: arg_ok_def split: option.splits)

lemma check_data_bad:
  "\<not> list_all (arg_ok d) xs \<Longrightarrow>
   \<exists>n a. (n, a) \<in> set xs \<and> \<not> arg_ok d (n, a) \<and>
     check_data xs d =
       Inl (AssertionError (case map_of d n of None \<Rightarrow> ArgumentMissing n | Some v \<Rightarrow> ArgumentWrongType n))"
proof (induction xs)
  case Nil
  then show ?case by simp
next
  case (Cons x xs)
  obtain n a where x: "x = (n, a)" by (cases x)
  show ?case
  proof (cases "arg_ok d (n, a)")
    case True
    with Cons.prems have "\<not> list_all (arg_ok d) xs" by (simp add: x)
    from Cons.IH [OF this] obtain n' a' where "(n', a') \<in> set xs" "\<not> arg_ok d (n', a')"
      "check_data xs d =
       Inl (AssertionError (case map_of d n' of None \<Rightarrow> ArgumentMissing n' | Some v \<Rightarrow> ArgumentWrongType n'))"
      by blast
    with True show ?thesis
      by (intro exI [of _ n'] exI [of _ a']) (auto simp: x arg_ok_def split: option.splits)
  next
    case False
    then show ?thesis
      by (intro exI [of _ n] exI [of _ a]) (auto simp: x arg_ok_def split: option.splits)
  qed
qed

lemma select_args_ok:
  "list_all (arg_ok d) xs \<Longrightarrow>
   select_args idx xs d =
     Inr (map (\<lambda>(n, a). (n, dict_get d n)) (filter (\<lambda>(n, a). is_indexed a = idx) xs))"
proof (induction xs)
  case Nil
  show ?case by simp
next
  case (Cons x xs)
  obtain n a where x: "x = (n, a)" by (cases x)
  from Cons.prems obtain v where v: "map_of d n = Some v"
    by (auto simp: x arg_ok_def split: option.splits)
  from Cons.prems have "list_all (arg_ok d) xs" by simp
  note IH = Cons.IH [OF this]
  show ?case
    by (cases "is_indexed a = idx") (simp_all add: x v IH dict_get_def)
qed

lemma meter_args_ok:
  "(\<forall>(n, v) \<in> set ia. \<exists>a. map_of args n = Some a \<and> isinstance v (as_tuple (arg_type a))) \<Longrightarrow>
   meter_args w args ia s = (Inr (), s\<lparr>meter := meter s @ map (\<lambda>(n, v). DeductWrite n v) ia\<rparr>)"
proof (induction ia arbitrary: s)
  case Nil
  show ?case by simp
next
  case (Cons x ia)
  obtain n v where x: "x = (n, v)" by (cases x)
  from Cons.prems obtain a where a: "map_of args n = Some a" "isinstance v (as_tuple (arg_type a))"
    by (auto simp: x)
  from Cons.prems have rest: "\<forall>(n, v) \<in> set ia. \<exists>a. map_of args n = Some a \<and> isinstance v (as_tuple (arg_type a))"
    by simp
  show ?case by (simp add: x a Cons.IH [OF rest] deduct_write_def)
qed

lemma selected_ok:
  assumes "list_all (arg_ok d) (dict_items args)"
  shows "\<forall>(n, v) \<in> set (map (\<lambda>(n, a). (n, dict_get d n))
            (filter (\<lambda>(n, a). is_indexed a = idx) (dict_items args))).
         \<exists>a. map_of args n = Some a \<and> isinstance v (as_tuple (arg_type a))"
proof -
  have "\<exists>a'. map_of args n = Some a' \<and> isinstance (dict_get d n) (as_tuple (arg_type a'))"
    if "(n, a) \<in> set (dict_items args)" for n a
  proof -
    from that have "map_of (AList.clearjunk args) n = Some a"
      by (simp add: dict_items_def)
    then have m: "map_of args n = Some a" by (simp add: map_of_clearjunk)
    from assms that have "arg_ok d (n, a)" by (auto simp: list_all_iff)
    then have "isinstance (dict_get d n) (as_tuple (arg_type a))"
      by (auto simp: arg_ok_def dict_get_def split: option.splits)
    with m show ?thesis by blast
  qed
  then show ?thesis by auto
qed

text \<open>
  The three outcomes of \<^verbatim>\<open>write_event\<close>: a count mismatch; a schema argument that is
  missing or whose value is no instance of its declared classes, named in the error; or
  the event record appended to the log after one metered write per argument.
\<close>

lemma write_event_cases:
  "(length (dict_items d) \<noteq> length (dict_items (le_args le)) \<longrightarrow>
      write_event le d s = (Inl (AssertionError ArgumentCount), s)) \<and>
   (length (dict_items d) = length (dict_items (le_args le)) \<and>
    \<not> list_all (arg_ok d) (dict_items (le_args le)) \<longrightarrow>
      (\<exists>n a. (n, a) \<in> set (dict_items (le_args le)) \<and> \<not> arg_ok d (n, a) \<and>
         write_event le d s =
           (Inl (AssertionError (case map_of d n of None \<Rightarrow> ArgumentMissing n
                                 | Some v \<Rightarrow> ArgumentWrongType n)), s))) \<and>
   (length (dict_items d) = length (dict_items (le_args le)) \<and>
    list_all (arg_ok d) (dict_items (le_args le)) \<longrightarrow>
      write_event le d s =
        (Inr (), s\<lparr>meter := meter s @
                    map (\<lambda>(n, v). DeductWrite n v)
                      (indexed_args (built_event le d s) @ non_indexed_args (built_event le d s)),
                  event_log := event_log s @ [built_event le d s]\<rparr>))"
proof (intro conjI impI)
  assume "length (dict_items d) \<noteq> length (dict_items (le_args le))"
  then show "write_event le d s = (Inl (AssertionError ArgumentCount), s)"
    by (simp add: write_event_def)
next
  assume a: "length (dict_items d) = length (dict_items (le_args le)) \<and>
    \<not> list_all (arg_ok d) (dict_items (le_args le))"
  from check_data_bad [of d "dict_items (le_args le)"] a
  obtain n a' where "(n, a') \<in> set (dict_items (le_args le))" "\<not> arg_ok d (n, a')"
    "check_data (dict_items (le_args le)) d =
       Inl (AssertionError (case map_of d n of None \<Rightarrow> ArgumentMissing n | Some v \<Rightarrow> ArgumentWrongType n))"
    by blast
  with a show "\<exists>n a. (n, a) \<in> set (dict_items (le_args le)) \<and> \<not> arg_ok d (n, a) \<and>
         write_event le d s =
           (Inl (AssertionError (case map_of d n of None \<Rightarrow> ArgumentMissing n
                                 | Some v \<Rightarrow> ArgumentWrongType n)), s)"
    by (intro exI [of _ n] exI [of _ a']) (simp add: write_event_def)
next
  assume a: "length (dict_items d) = length (dict_items (le_args le)) \<and>
    list_all (arg_ok d) (dict_items (le_args le))"
  then have ok: "list_all (arg_ok d) (dict_items (le_args le))" by simp
  let ?ia = "map (\<lambda>(n, a). (n, dict_get d n))
        (filter (\<lambda>(n, a). is_indexed a) (dict_items (le_args le)))"
  let ?na = "map (\<lambda>(n, a). (n, dict_get d n))
        (filter (\<lambda>(n, a). \<not> is_indexed a) (dict_items (le_args le)))"
  have s1: "select_args True (dict_items (le_args le)) d = Inr ?ia"
    using select_args_ok [OF ok, of True] by simp
  have s2: "select_args False (dict_items (le_args le)) d = Inr ?na"
    using select_args_ok [OF ok, of False] by simp
  have m1: "meter_args w (le_args le) ?ia s' =
      (Inr (), s'\<lparr>meter := meter s' @ map (\<lambda>(n, v). DeductWrite n v) ?ia\<rparr>)" for w s'
    using selected_ok [OF ok, of True] by (intro meter_args_ok) simp
  have m2: "meter_args w (le_args le) ?na s' =
      (Inr (), s'\<lparr>meter := meter s' @ map (\<lambda>(n, v). DeductWrite n v) ?na\<rparr>)" for w s'
    using selected_ok [OF ok, of False] by (intro meter_args_ok) simp
  show "write_event le d s =
        (Inr (), s\<lparr>meter := meter s @
                    map (\<lambda>(n, v). DeductWrite n v)
                      (indexed_args (built_event le d s) @ non_indexed_args (built_event le d s)),
                  event_log := event_log s @ [built_event le d s]\<rparr>)"
    using a
    by (simp add: write_event_def check_data_ok [OF ok] s1 s2 m1 m2 built_event_def
        set_event_def Let_def)
qed

text \<open>
  C8. Construction and emission fail as claimed (\<open>LogEvent_init_fails\<close>,
  \<open>write_event_cases\<close>), except that the check on a value is \<^verbatim>\<open>isinstance\<close>: a
  boolean, whose kind is not among the allowed kinds of an integer-only argument, is
  accepted there, because \<^verbatim>\<open>bool\<close> is a subclass of \<^verbatim>\<open>int\<close>.
\<close>

theorem bool_passes_for_int:
  "LogEvent_init state0 ''currency'' ''Transfer''
      [(''amount'', \<lparr>arg_type = OneType TInt, arg_idx = None\<rparr>)] = Inr amount_event \<and>
   type_of (PBool True) \<notin> set [TInt] \<and>
   fst (write_event amount_event [(''amount'', PBool True)] state0) = Inr ()"
  by code_simp

end
